theory Spec2Isabelle
  imports Complex_Main
begin

section \<open>The synthetic trading series generator of the dashboard chart\<close>

text \<open>
  The embedding follows \<^verbatim>\<open>generateTradingSeries\<close> and its helpers
  (\<^verbatim>\<open>clamp\<close>, \<^verbatim>\<open>shiftDays\<close>, \<^verbatim>\<open>toISODate\<close>, \<^verbatim>\<open>FletcherVol\<close>,
  \<^verbatim>\<open>gaussian\<close>) of the chart component.

  Conventions of the embedding:
  \<^item> a JavaScript number is a \<^typ>\<open>real\<close> (or an \<^typ>\<open>int\<close> where the code only ever
    holds an integer, such as the result of \<^verbatim>\<open>Math.round\<close>); the rounding of IEEE
    doubles is not modelled;
  \<^item> the ambient random source is made explicit: \<open>rs\<close> is the sequence of the numbers
    that successive calls of \<^verbatim>\<open>Math.random()\<close> return, and a cursor (a \<^typ>\<open>nat\<close>)
    says how many have been consumed;
  \<^item> a loop whose exit depends on the random source returns an \<open>option\<close>:
    \<open>None\<close> is the loop that never exits;
  \<^item> the clock and the time zone of the runtime are made explicit too: \<open>now\<close> is the
    Date that \<^verbatim>\<open>new Date()\<close> gives, and it carries the zone's offsets.
\<close>

subsection \<open>Numbers and the random source\<close>

type_synonym rng = "nat \<Rightarrow> real"

text \<open>\<^verbatim>\<open>Math.random()\<close>: the next number of the source, and the advanced cursor.\<close>

definition Math_random :: "rng \<Rightarrow> nat \<Rightarrow> real \<times> nat" where
  "Math_random rs pos = (rs pos, Suc pos)"

text \<open>The contract of \<^verbatim>\<open>Math.random()\<close>: every number lies in \<open>[0, 1)\<close>.\<close>

definition uniform01 :: "rng \<Rightarrow> bool" where
  "uniform01 rs = (\<forall>k. 0 \<le> rs k \<and> rs k < 1)"

text \<open>\<^verbatim>\<open>Math.round\<close> rounds to the nearest integer, a tie towards \<open>+\<infinity>\<close>.\<close>

definition Math_round :: "real \<Rightarrow> int" where
  "Math_round x = \<lfloor>x + 1 / 2\<rfloor>"

definition Math_floor :: "real \<Rightarrow> int" where
  "Math_floor x = \<lfloor>x\<rfloor>"

definition Math_sign :: "real \<Rightarrow> real" where
  "Math_sign x = (if x > 0 then 1 else if x < 0 then - 1 else 0)"

text \<open>\<^verbatim>\<open>clamp(n, min, max) = Math.max(min, Math.min(max, n))\<close>, used on the volatility and
  on the (integer) active-user count.\<close>

definition clamp :: "'a::linorder \<Rightarrow> 'a \<Rightarrow> 'a \<Rightarrow> 'a" where
  "clamp n mn mx = max mn (min mx n)"

text \<open>\<^verbatim>\<open>FletcherVol(min, max) = min + Math.random() * (max - min)\<close>.\<close>

definition FletcherVol :: "real \<Rightarrow> real \<Rightarrow> rng \<Rightarrow> nat \<Rightarrow> real \<times> nat" where
  "FletcherVol mn mx rs pos = (let (r, pos') = Math_random rs pos in (mn + r * (mx - mn), pos'))"

subsection \<open>The Box--Muller normal sample\<close>

text \<open>
  \<^verbatim>\<open>while (u === 0) u = Math.random()\<close>: the loop on a variable \<open>u\<close> that redraws while it
  is exactly \<open>0\<close>. It need not exit (a source that returns \<open>0\<close> for ever), so it is a
  partial function.
\<close>

partial_function (option) redraw :: "rng \<Rightarrow> real \<Rightarrow> nat \<Rightarrow> (real \<times> nat) option" where
  "redraw rs u pos =
     (if u = 0 then (let (r, pos') = Math_random rs pos in redraw rs r pos') else Some (u, pos))"

text \<open>The two loops of \<^verbatim>\<open>gaussian\<close>, both variables starting at \<open>0\<close>: the pair
  \<open>(u, v)\<close> handed to the transform, and the cursor after them.\<close>

definition gaussian_uv :: "rng \<Rightarrow> nat \<Rightarrow> (real \<times> real \<times> nat) option" where
  "gaussian_uv rs pos =
     (case redraw rs 0 pos of
        None \<Rightarrow> None
      | Some (u, pos1) \<Rightarrow>
          (case redraw rs 0 pos1 of
             None \<Rightarrow> None
           | Some (v, pos2) \<Rightarrow> Some (u, v, pos2)))"

text \<open>\<^verbatim>\<open>z = Math.sqrt(-2.0 * Math.log(u)) * Math.cos(2.0 * Math.PI * v)\<close>.\<close>

definition box_muller :: "real \<Rightarrow> real \<Rightarrow> real" where
  "box_muller u v = sqrt (- 2 * ln u) * cos (2 * pi * v)"

definition gaussian :: "real \<Rightarrow> real \<Rightarrow> rng \<Rightarrow> nat \<Rightarrow> (real \<times> nat) option" where
  "gaussian mean std rs pos =
     (case gaussian_uv rs pos of
        None \<Rightarrow> None
      | Some (u, v, pos') \<Rightarrow> Some (mean + box_muller u v * std, pos'))"

subsection \<open>Dates of the JavaScript runtime\<close>

text \<open>
  The code uses the \<^verbatim>\<open>Date\<close> of the runtime through \<^verbatim>\<open>new Date()\<close>, \<^verbatim>\<open>new Date(date)\<close>,
  \<^verbatim>\<open>getFullYear\<close>, \<^verbatim>\<open>getMonth\<close>, \<^verbatim>\<open>getDate\<close> and \<^verbatim>\<open>setDate\<close>, all of them in local
  time. These are modelled after ECMA-262 (Date objects): a Date holds a time value in
  UTC, or \<open>NaN\<close> (an invalid Date); the getters read the local time of the time value;
  \<^verbatim>\<open>setDate\<close> builds a local time from the local year, month and time of day and the new
  day of the month, converts it to UTC with the offset of the time zone, and clips it to
  the range of time values.

  A time value, in UTC or in local time, is held as a calendar date and a time of day
  (\<open>dtMonth\<close> counts from \<open>0\<close>, \<open>dtTime\<close> is in milliseconds) instead of a number of
  milliseconds since the epoch; the calendar is the proleptic Gregorian one.
\<close>

record DateTime =
  dtYear :: int
  dtMonth :: int
  dtDate :: int
  dtTime :: int

definition msPerDay :: int where
  "msPerDay = 86400000"

definition isLeapYear :: "int \<Rightarrow> bool" where
  "isLeapYear y = (y mod 4 = 0 \<and> (y mod 100 \<noteq> 0 \<or> y mod 400 = 0))"

text \<open>The number of days of the month with index \<open>m\<close> (from \<open>0\<close>) of the year \<open>y\<close>.\<close>

definition daysInMonth :: "int \<Rightarrow> int \<Rightarrow> int" where
  "daysInMonth y m =
     (if m = 1 then (if isLeapYear y then 29 else 28)
      else if m = 3 \<or> m = 5 \<or> m = 8 \<or> m = 10 then 30
      else 31)"

definition prevMonth :: "DateTime \<Rightarrow> DateTime" where
  "prevMonth t =
     (if dtMonth t = 0 then t\<lparr>dtYear := dtYear t - 1, dtMonth := 11\<rparr>
      else t\<lparr>dtMonth := dtMonth t - 1\<rparr>)"

definition nextMonth :: "DateTime \<Rightarrow> DateTime" where
  "nextMonth t =
     (if dtMonth t = 11 then t\<lparr>dtYear := dtYear t + 1, dtMonth := 0\<rparr>
      else t\<lparr>dtMonth := dtMonth t + 1\<rparr>)"

text \<open>
  \<open>MakeDate(MakeDay(YearFromTime(t), MonthFromTime(t), dt), TimeWithinDay(t))\<close> of
  ECMA-262: the time of day of \<open>t\<close> on the day number \<open>dt\<close> of the month of \<open>t\<close>, where a
  \<open>dt\<close> below \<open>1\<close> or beyond the month's last day rolls over into the months before or
  after (day \<open>0\<close> is the last day of the month before, and so on).
\<close>

function MakeDay :: "DateTime \<Rightarrow> int \<Rightarrow> DateTime" where
  "MakeDay t dt =
     (if dt < 1 then
        (let p = prevMonth t in MakeDay p (dt + daysInMonth (dtYear p) (dtMonth p)))
      else if dt > daysInMonth (dtYear t) (dtMonth t) then
        MakeDay (nextMonth t) (dt - daysInMonth (dtYear t) (dtMonth t))
      else t\<lparr>dtDate := dt\<rparr>)"
  by pat_completeness auto
termination
  by (relation "measure (\<lambda>(t, dt). if dt < 1 then nat (1 - dt) + 31 else nat dt)")
     (auto simp: daysInMonth_def)

declare MakeDay.simps [simp del]

text \<open>The time value \<open>k\<close> milliseconds after \<open>t\<close> (before, for a negative \<open>k\<close>).\<close>

definition plusMillis :: "DateTime \<Rightarrow> int \<Rightarrow> DateTime" where
  "plusMillis t k =
     (let total = dtTime t + k
      in (MakeDay t (dtDate t + total div msPerDay))\<lparr>dtTime := total mod msPerDay\<rparr>)"

text \<open>Chronological order of time values.\<close>

definition earlier :: "DateTime \<Rightarrow> DateTime \<Rightarrow> bool" where
  "earlier a b =
     (dtYear a < dtYear b \<or>
      dtYear a = dtYear b \<and>
        (dtMonth a < dtMonth b \<or>
         dtMonth a = dtMonth b \<and>
           (dtDate a < dtDate b \<or> dtDate a = dtDate b \<and> dtTime a < dtTime b)))"

text \<open>
  \<open>TimeClip\<close>: a time value more than \<open>8.64 \<cdot> 10\<^sup>1\<^sup>5\<close> milliseconds (100,000,000 days) away
  from the epoch becomes \<open>NaN\<close>. The two ends of the range are 20 April of the year
  \<open>-271821\<close> and 13 September of the year \<open>275760\<close>, at midnight UTC.
\<close>

definition TimeClip :: "DateTime \<Rightarrow> DateTime option" where
  "TimeClip t =
     (if earlier t \<lparr>dtYear = - 271821, dtMonth = 3, dtDate = 20, dtTime = 0\<rparr> \<or>
         earlier \<lparr>dtYear = 275760, dtMonth = 8, dtDate = 13, dtTime = 0\<rparr> t
      then None else Some t)"

text \<open>
  A Date object in its runtime: the time value (\<open>None\<close> for \<open>NaN\<close>), and the offset of
  the runtime's time zone, \<open>LocalTZA(t, isUTC)\<close> of ECMA-262, in milliseconds: for a time
  value \<open>t\<close> in UTC (\<open>isUTC\<close> true) the offset in effect at \<open>t\<close>; for a local time \<open>t\<close>
  (\<open>isUTC\<close> false) the offset with which \<open>t\<close> is read, which for a local time that a
  change of offset skips or repeats is the offset before the change. The zone belongs to
  the runtime, not to the object; every Date of a call carries the same one.
\<close>

record Date =
  timeValue :: "DateTime option"
  LocalTZA :: "DateTime \<Rightarrow> bool \<Rightarrow> int"

definition LocalTime :: "Date \<Rightarrow> DateTime \<Rightarrow> DateTime" where
  "LocalTime d t = plusMillis t (LocalTZA d t True)"

definition UTC :: "Date \<Rightarrow> DateTime \<Rightarrow> DateTime" where
  "UTC d t = plusMillis t (- LocalTZA d t False)"

text \<open>The getters: \<open>NaN\<close> (here \<open>None\<close>) for an invalid Date, else the field of the local
  time. \<^verbatim>\<open>getMonth\<close> counts from \<open>0\<close>.\<close>

definition getFullYear :: "Date \<Rightarrow> int option" where
  "getFullYear d = map_option (\<lambda>t. dtYear (LocalTime d t)) (timeValue d)"

definition getMonth :: "Date \<Rightarrow> int option" where
  "getMonth d = map_option (\<lambda>t. dtMonth (LocalTime d t)) (timeValue d)"

definition getDate :: "Date \<Rightarrow> int option" where
  "getDate d = map_option (\<lambda>t. dtDate (LocalTime d t)) (timeValue d)"

text \<open>
  \<^verbatim>\<open>Date.prototype.setDate(dt)\<close>: nothing changes when the time value is \<open>NaN\<close>; else,
  with \<open>t\<close> the local time of the time value, the new time value is
  \<open>TimeClip(UTC(MakeDate(MakeDay(YearFromTime(t), MonthFromTime(t), dt), TimeWithinDay(t))))\<close>,
  and \<open>NaN\<close> when \<open>dt\<close> is \<open>NaN\<close>.
\<close>

definition setDate :: "Date \<Rightarrow> int option \<Rightarrow> Date" where
  "setDate d dt =
     (case timeValue d of
        None \<Rightarrow> d
      | Some tv \<Rightarrow>
          (case dt of
             None \<Rightarrow> d\<lparr>timeValue := None\<rparr>
           | Some n \<Rightarrow>
               (let t = LocalTime d tv;
                    newDate = MakeDay t n;
                    u = TimeClip (UTC d newDate)
                in d\<lparr>timeValue := u\<rparr>)))"

text \<open>\<^verbatim>\<open>shiftDays(date, days)\<close>: \<^verbatim>\<open>const d = new Date(date); d.setDate(d.getDate() + days);
  return d\<close>.\<close>

definition shiftDays :: "Date \<Rightarrow> int \<Rightarrow> Date" where
  "shiftDays date days =
     (let d = date in setDate d (map_option (\<lambda>x. x + days) (getDate d)))"

text \<open>\<^verbatim>\<open>String(n)\<close> of an integer or \<open>NaN\<close>: the decimal digits, after a minus sign when
  negative; \<^verbatim>\<open>NaN\<close> for \<open>NaN\<close>.\<close>

definition digit_char :: "nat \<Rightarrow> char" where
  "digit_char n = ''0123456789'' ! n"

fun string_of_nat :: "nat \<Rightarrow> string" where
  "string_of_nat n =
     (if n < 10 then [digit_char n] else string_of_nat (n div 10) @ [digit_char (n mod 10)])"

declare string_of_nat.simps [simp del]

definition String :: "int option \<Rightarrow> string" where
  "String x =
     (case x of
        None \<Rightarrow> ''NaN''
      | Some n \<Rightarrow>
          (if n < 0 then CHR ''-'' # string_of_nat (nat (- n)) else string_of_nat (nat n)))"

text \<open>\<^verbatim>\<open>s.padStart(n, c)\<close> with a one-character pad \<open>c\<close>.\<close>

definition padStart :: "string \<Rightarrow> nat \<Rightarrow> char \<Rightarrow> string" where
  "padStart s n c = replicate (n - length s) c @ s"

text \<open>\<^verbatim>\<open>toISODate(d)\<close>: the year as \<^verbatim>\<open>String\<close> prints it, the month (plus one) and the day
  padded to two characters, joined by hyphens.\<close>

definition toISODate :: "Date \<Rightarrow> string" where
  "toISODate d =
     (let yyyy = getFullYear d;
          mm = padStart (String (map_option (\<lambda>m. m + 1) (getMonth d))) 2 CHR ''0'';
          dd = padStart (String (getDate d)) 2 CHR ''0''
      in String yyyy @ ''-'' @ mm @ ''-'' @ dd)"

subsection \<open>The generator\<close>

text \<open>One element of the returned array: \<^verbatim>\<open>{ date, totalBalance, activeUsers }\<close>.\<close>

record SeriesPoint =
  date :: string
  totalBalance :: int
  activeUsers :: int

text \<open>The values fixed before the loop (\<^verbatim>\<open>const\<close> in the source, with the argument
  \<open>days\<close>), and the variables the loop updates: \<^verbatim>\<open>vol\<close>, \<^verbatim>\<open>balance\<close> and
  \<^verbatim>\<open>activeUsers\<close> (here \<open>users\<close>, the name \<open>activeUsers\<close> being the point's field).\<close>

record params =
  drift :: real
  anchor :: real
  baseUsers :: int
  startDate :: Date
  days :: int

record locals =
  vol :: real
  balance :: real
  users :: int

text \<open>The statements before the loop, in the order in which they consume the random
  source: the parameters, the initial variables, and the cursor after six draws.\<close>

definition init :: "rng \<Rightarrow> Date \<Rightarrow> int \<Rightarrow> params \<times> locals \<times> nat" where
  "init rs now n =
     (let (r0, p1) = Math_random rs 0;
          (r1, p2) = Math_random rs p1;
          startBalance = (300000000 + r0 * 900000000) * (if r1 > 0.5 then 1 else 0.9);
          (r2, p3) = Math_random rs p2;
          baseUsers0 = Math_floor (40 + r2 * 160);
          (r3, p4) = Math_random rs p3;
          drift0 = (r3 - 0.45) * 0.0012;
          (vol0, p5) = FletcherVol 0.004 0.014 rs p4;
          (r5, p6) = Math_random rs p5;
          anchor0 = startBalance * (0.98 + r5 * 0.05);
          referenceDate = now;
          startDate0 = shiftDays referenceDate (- (n - 1))
      in (\<lparr>drift = drift0, anchor = anchor0, baseUsers = baseUsers0,
            startDate = startDate0, days = n\<rparr>,
          \<lparr>vol = vol0, balance = startBalance, users = baseUsers0\<rparr>,
          p6))"

text \<open>The volatility clustering step:
  \<^verbatim>\<open>if (Math.random() < 0.18) vol = clamp(vol * (0.85 + Math.random() * 0.7), 0.003, 0.03)\<close>.\<close>

definition vol_step :: "real \<Rightarrow> rng \<Rightarrow> nat \<Rightarrow> real \<times> nat" where
  "vol_step v rs pos =
     (let (r, p1) = Math_random rs pos in
      if r < 0.18 then
        (let (f, p2) = Math_random rs p1 in (clamp (v * (0.85 + f * 0.7)) 0.003 0.03, p2))
      else (v, p1))"

text \<open>The shock:
  \<^verbatim>\<open>Math.random() < 0.12 ? (Math.random() > 0.5 ? 1 : -1) * (0.008 + Math.random() * 0.02) : 0\<close>.\<close>

definition shock_draw :: "rng \<Rightarrow> nat \<Rightarrow> real \<times> nat" where
  "shock_draw rs pos =
     (let (r, p1) = Math_random rs pos in
      if r < 0.12 then
        (let (s, p2) = Math_random rs p1;
             (m, p3) = Math_random rs p2
         in ((if s > 0.5 then 1 else - 1) * (0.008 + m * 0.02), p3))
      else (0, p1))"

text \<open>The return of the day and the new balance:
  \<^verbatim>\<open>dailyReturn = drift + noise + shock\<close>,
  \<^verbatim>\<open>deviation = (balance - anchor) / anchor\<close>,
  \<^verbatim>\<open>dailyReturn += -deviation * 0.08\<close>,
  \<^verbatim>\<open>balance = Math.max(0, balance * (1 + dailyReturn))\<close>.\<close>

definition apply_return :: "params \<Rightarrow> real \<Rightarrow> real \<Rightarrow> real \<Rightarrow> real" where
  "apply_return c bal noise shock =
     (let dailyReturn = drift c + noise + shock;
          deviation = (bal - anchor c) / anchor c;
          dailyReturn = dailyReturn + - deviation * 0.08
      in max 0 (bal * (1 + dailyReturn)))"

text \<open>The active users:
  \<^verbatim>\<open>userShock = shock !== 0 ? Math.sign(shock) * (1 + Math.random() * 2) : 0\<close>, then the
  clamped, rounded update.\<close>

definition users_step :: "params \<Rightarrow> int \<Rightarrow> real \<Rightarrow> rng \<Rightarrow> nat \<Rightarrow> int \<times> nat" where
  "users_step c au shock rs pos =
     (let (userShock, p1) =
            (if shock \<noteq> 0 then
               (let (r, p) = Math_random rs pos in (Math_sign shock * (1 + r * 2), p))
             else (0, pos));
          (r, p2) = Math_random rs p1
      in (clamp (Math_round (of_int au + (r - 0.5) * 6 + userShock))
            (max 5 (Math_round (of_int (baseUsers c) * 0.6)))
            (Math_round (of_int (baseUsers c) * 1.4)),
          p2))"

text \<open>One iteration of the \<^verbatim>\<open>for\<close> loop, at index \<open>i\<close>: the updated variables, the point
  pushed, and the cursor; \<open>None\<close> when \<^verbatim>\<open>gaussian\<close> does not return.\<close>

definition loop_body ::
  "params \<Rightarrow> rng \<Rightarrow> int \<Rightarrow> locals \<Rightarrow> nat \<Rightarrow> (locals \<times> SeriesPoint \<times> nat) option" where
  "loop_body c rs i s pos =
     (let date0 = shiftDays (startDate c) i;
          (vol1, p1) = vol_step (vol s) rs pos;
          (shock, p2) = shock_draw rs p1
      in case gaussian 0 vol1 rs p2 of
           None \<Rightarrow> None
         | Some (noise, p3) \<Rightarrow>
             (let balance1 = apply_return c (balance s) noise shock;
                  (users1, p4) = users_step c (users s) shock rs p3
              in Some (\<lparr>vol = vol1, balance = balance1, users = users1\<rparr>,
                       \<lparr>date = toISODate date0, totalBalance = Math_round balance1,
                        activeUsers = users1\<rparr>,
                       p4)))"

text \<open>\<^verbatim>\<open>for (let i = 0; i < days; i++) { ...; data.push(...) }\<close>, from index \<open>i\<close> on.\<close>

function loop ::
  "params \<Rightarrow> rng \<Rightarrow> int \<Rightarrow> locals \<Rightarrow> nat \<Rightarrow> SeriesPoint list \<Rightarrow>
   (locals \<times> SeriesPoint list \<times> nat) option" where
  "loop c rs i s pos data =
     (if i < days c then
        (case loop_body c rs i s pos of
           None \<Rightarrow> None
         | Some (s', pt, pos') \<Rightarrow> loop c rs (i + 1) s' pos' (data @ [pt]))
      else Some (s, data, pos))"
  by pat_completeness auto
termination
  by (relation "measure (\<lambda>(c, rs, i, s, pos, data). nat (days c - i))") auto

declare loop.simps [simp del]

text \<open>\<^verbatim>\<open>generateTradingSeries(days)\<close>, on the random source \<open>rs\<close> and with \<open>now\<close> the Date
  that \<^verbatim>\<open>new Date()\<close> gives (the clock's reading, in the runtime's time zone): the array
  returned, or \<open>None\<close> when the call does not return.\<close>

definition generateTradingSeries :: "rng \<Rightarrow> Date \<Rightarrow> int \<Rightarrow> SeriesPoint list option" where
  "generateTradingSeries rs now n =
     (let (c, s, pos) = init rs now n in
      case loop c rs 0 s pos [] of
        None \<Rightarrow> None
      | Some (s', data, pos') \<Rightarrow> Some data)"

subsection \<open>Notions used to state the properties\<close>

text \<open>A random source on which no redraw loop can spin for ever: after every position
  there is a later draw that is not \<open>0\<close>.\<close>

definition nonzero_recurs :: "rng \<Rightarrow> bool" where
  "nonzero_recurs rs = (\<forall>i. \<exists>j. i \<le> j \<and> rs j \<noteq> 0)"

text \<open>Four sources used as concrete inputs: one that returns \<open>0\<close> on every call, one
  that returns \<open>1/4\<close> on every call, one that returns \<open>1/10\<close> on every call, and one that
  returns \<open>0\<close> once and \<open>1/4\<close> afterwards.\<close>

definition zeros :: rng where
  "zeros k = 0"

definition quarters :: rng where
  "quarters k = 1 / 4"

definition tenths :: rng where
  "tenths k = 1 / 10"

definition zero_once :: rng where
  "zero_once k = (if k = 0 then 0 else 1 / 4)"

text \<open>Two time zones used as concrete inputs: UTC, and America/Nuuk as it is in 2026
  (two hours behind UTC; one hour behind from 29 March 2026 01:00 UTC, when the local
  clock goes from 23:00 on 28 March straight to 00:00 on 29 March, until 25 October 2026
  01:00 UTC).\<close>

definition utc_zone :: "DateTime \<Rightarrow> bool \<Rightarrow> int" where
  "utc_zone t isUTC = 0"

definition nuuk_2026 :: "DateTime \<Rightarrow> bool \<Rightarrow> int" where
  "nuuk_2026 t isUTC =
     (if isUTC then
        (if earlier t \<lparr>dtYear = 2026, dtMonth = 2, dtDate = 29, dtTime = 3600000\<rparr>
         then - 7200000
         else if earlier t \<lparr>dtYear = 2026, dtMonth = 9, dtDate = 25, dtTime = 3600000\<rparr>
         then - 3600000
         else - 7200000)
      else
        (if earlier t \<lparr>dtYear = 2026, dtMonth = 2, dtDate = 29, dtTime = 0\<rparr>
         then - 7200000
         else if earlier t \<lparr>dtYear = 2026, dtMonth = 9, dtDate = 25, dtTime = 0\<rparr>
         then - 3600000
         else - 7200000))"

text \<open>Three clock readings used as concrete inputs: noon of 1 November 2026 in UTC;
  23:30 on 1 April 2026 in Nuuk (00:30 UTC on 2 April); and 23:30 on 30 March 2026 in
  Nuuk (00:30 UTC on 31 March).\<close>

definition today :: Date where
  "today =
     \<lparr>timeValue = Some \<lparr>dtYear = 2026, dtMonth = 10, dtDate = 1, dtTime = 43200000\<rparr>,
      LocalTZA = utc_zone\<rparr>"

definition nuuk_april_1 :: Date where
  "nuuk_april_1 =
     \<lparr>timeValue = Some \<lparr>dtYear = 2026, dtMonth = 3, dtDate = 2, dtTime = 1800000\<rparr>,
      LocalTZA = nuuk_2026\<rparr>"

definition nuuk_march_30 :: Date where
  "nuuk_march_30 =
     \<lparr>timeValue = Some \<lparr>dtYear = 2026, dtMonth = 2, dtDate = 31, dtTime = 1800000\<rparr>,
      LocalTZA = nuuk_2026\<rparr>"

text \<open>The Date of the point at index \<open>k\<close> of a call with argument \<open>n\<close> at the clock
  reading \<open>now\<close>, as the loop computes it: \<^verbatim>\<open>shiftDays(startDate, k)\<close> with
  \<^verbatim>\<open>startDate = shiftDays(referenceDate, -(days - 1))\<close>.\<close>

definition point_day :: "Date \<Rightarrow> int \<Rightarrow> int \<Rightarrow> Date" where
  "point_day now n k = shiftDays (shiftDays now (- (n - 1))) k"

text \<open>The balance update as the specification words it (steps 4 to 6 of its algorithm):
  the daily return is the sum of drift, noise and shock; the deviation from the anchor is
  \<open>(balance - anchor) / anchor\<close> and \<open>0.08 \<cdot> deviation\<close> is subtracted from the daily
  return; the balance becomes \<open>max(0, balance \<cdot> (1 + dailyReturn))\<close>.\<close>

definition spec_daily_return :: "real \<Rightarrow> real \<Rightarrow> real \<Rightarrow> real" where
  "spec_daily_return dr noise shock = dr + noise + shock"

definition spec_mean_reversion :: "real \<Rightarrow> real \<Rightarrow> real \<Rightarrow> real" where
  "spec_mean_reversion dailyReturn bal anch = dailyReturn - 0.08 * ((bal - anch) / anch)"

definition spec_balance_update :: "real \<Rightarrow> real \<Rightarrow> real" where
  "spec_balance_update bal dailyReturn = max 0 (bal * (1 + dailyReturn))"

definition spec_balance_step :: "real \<Rightarrow> real \<Rightarrow> real \<Rightarrow> real \<Rightarrow> real \<Rightarrow> real" where
  "spec_balance_step dr anch bal noise shock =
     spec_balance_update bal (spec_mean_reversion (spec_daily_return dr noise shock) bal anch)"

section \<open>Properties\<close>

subsection \<open>The redraw loops of the normal sample\<close>

lemma redraw_zero_step: "redraw rs 0 pos = redraw rs (rs pos) (Suc pos)"
  by (subst redraw.simps) (simp add: Math_random_def)

lemma redraw_nonzero: "u \<noteq> 0 \<Longrightarrow> redraw rs u pos = Some (u, pos)"
  by (subst redraw.simps) simp

text \<open>Partial correctness of the loop, by the induction rule of the partial function: the
  value it returns is not \<open>0\<close>; it is the start value when that is not \<open>0\<close>, and
  otherwise the first draw that is not \<open>0\<close>.\<close>

lemma redraw_Some_aux:
  assumes "redraw rs u pos = Some y"
  shows "fst y \<noteq> 0 \<and>
         (fst y = u \<and> snd y = pos \<or>
          u = 0 \<and> pos < snd y \<and> fst y = rs (snd y - 1) \<and>
            (\<forall>k. pos \<le> k \<and> k < snd y - 1 \<longrightarrow> rs k = 0))"
  using assms
proof (induct rs u pos y rule: redraw.raw_induct)
  case (1 f rs u pos y)
  show ?case
  proof (cases "u = 0")
    case True
    with 1(2) have a: "f rs (rs pos) (Suc pos) = Some y"
      by (simp add: Math_random_def)
    from 1(3) True have b: "redraw rs (rs pos) (Suc pos) = Some y"
      by (simp add: redraw_zero_step)
    from 1(1)[OF a b] have nz: "fst y \<noteq> 0"
      and c: "fst y = rs pos \<and> snd y = Suc pos \<or>
          rs pos = 0 \<and> Suc pos < snd y \<and> fst y = rs (snd y - 1) \<and>
          (\<forall>k. Suc pos \<le> k \<and> k < snd y - 1 \<longrightarrow> rs k = 0)"
      by blast+
    from c show ?thesis
    proof
      assume "fst y = rs pos \<and> snd y = Suc pos"
      with True nz show ?thesis by simp
    next
      assume d: "rs pos = 0 \<and> Suc pos < snd y \<and> fst y = rs (snd y - 1) \<and>
          (\<forall>k. Suc pos \<le> k \<and> k < snd y - 1 \<longrightarrow> rs k = 0)"
      have "\<forall>k. pos \<le> k \<and> k < snd y - 1 \<longrightarrow> rs k = 0"
      proof (intro allI impI)
        fix k assume "pos \<le> k \<and> k < snd y - 1"
        then show "rs k = 0" using d by (cases "k = pos") auto
      qed
      with True nz d show ?thesis by simp
    qed
  next
    case False
    with 1(2) show ?thesis by auto
  qed
qed (rule assms)

lemma redraw_from_zero:
  assumes "redraw rs 0 pos = Some (x, pos')"
  shows "x \<noteq> 0 \<and> pos < pos' \<and> x = rs (pos' - 1) \<and>
         (\<forall>k. pos \<le> k \<and> k < pos' - 1 \<longrightarrow> rs k = 0)"
  using redraw_Some_aux[OF assms] by auto

text \<open>On the source that only returns \<open>0\<close> the loop does not exit.\<close>

lemma redraw_zeros: "redraw zeros 0 pos = None"
proof (cases "redraw zeros 0 pos")
  case None
  then show ?thesis .
next
  case (Some y)
  from redraw_Some_aux[OF Some] show ?thesis by (auto simp: zeros_def)
qed

text \<open>The loop exits as soon as some draw at or after the cursor is not \<open>0\<close>.\<close>

lemma redraw_terminates:
  assumes "rs j \<noteq> 0" "pos \<le> j"
  shows "\<exists>x pos'. redraw rs 0 pos = Some (x, pos')"
  using assms
proof (induction "j - pos" arbitrary: pos)
  case 0
  then have "pos = j" by simp
  with 0 show ?case by (simp add: redraw_zero_step redraw_nonzero)
next
  case (Suc m)
  show ?case
  proof (cases "rs pos = 0")
    case True
    from Suc have "m = j - Suc pos" "Suc pos \<le> j" by auto
    from Suc(1)[OF this(1) Suc(3) this(2)]
    obtain x pos' where "redraw rs 0 (Suc pos) = Some (x, pos')" by blast
    with True show ?thesis by (simp add: redraw_zero_step)
  next
    case False
    then show ?thesis by (simp add: redraw_zero_step redraw_nonzero)
  qed
qed

lemma gaussian_uv_SomeD:
  assumes "gaussian_uv rs pos = Some (u, v, pos')"
  shows "\<exists>p1. redraw rs 0 pos = Some (u, p1) \<and> redraw rs 0 p1 = Some (v, pos')"
  using assms by (auto simp: gaussian_uv_def split: option.splits)

lemma gaussian_terminates:
  assumes "nonzero_recurs rs"
  shows "\<exists>x pos'. gaussian mean std rs pos = Some (x, pos')"
proof -
  from assms obtain j where j: "pos \<le> j" "rs j \<noteq> 0"
    unfolding nonzero_recurs_def by blast
  from redraw_terminates[of rs j pos] j
  obtain u p1 where r1: "redraw rs 0 pos = Some (u, p1)" by blast
  from assms obtain j' where j': "p1 \<le> j'" "rs j' \<noteq> 0"
    unfolding nonzero_recurs_def by blast
  from redraw_terminates[of rs j' p1] j'
  obtain v p2 where r2: "redraw rs 0 p1 = Some (v, p2)" by blast
  from r1 r2 show ?thesis by (simp add: gaussian_def gaussian_uv_def)
qed

lemma gaussian_zeros: "gaussian mean std zeros pos = None"
  by (simp add: gaussian_def gaussian_uv_def redraw_zeros)

lemma ln_arg_positive:
  fixes u :: real
  assumes "0 < u" "u < 1"
  shows "0 < - 2 * ln u"
  using assms by simp

lemma uniform01_quarters: "uniform01 quarters"
  by (simp add: uniform01_def quarters_def)

lemma uniform01_zero_once: "uniform01 zero_once"
  by (simp add: uniform01_def zero_once_def)

lemma zero_once_uv: "gaussian_uv zero_once 0 = Some (1 / 4, 1 / 4, 3)"
  by (simp add: gaussian_uv_def redraw_zero_step redraw_nonzero zero_once_def)

text \<open>
  C6. The normal-sample routine never takes the logarithm of \<open>0\<close>. On a source within
  \<open>[0, 1)\<close>, whenever the two redraw loops of \<^verbatim>\<open>gaussian\<close> exit, the values \<open>u\<close> and \<open>v\<close>
  they hand to the transform lie strictly between \<open>0\<close> and \<open>1\<close>: \<open>u\<close> is the first draw
  from the cursor on that is not \<open>0\<close> and \<open>v\<close> the first after it, every draw skipped being
  exactly \<open>0\<close>. So the argument of the logarithm is positive, the argument \<open>-2 ln u\<close> of
  the square root is positive, and the routine returns
  \<open>mean + sqrt (-2 ln u) \<cdot> cos (2 \<pi> v) \<cdot> std\<close>.
\<close>

theorem gaussian_never_takes_ln_of_zero:
  assumes "uniform01 rs" and "gaussian_uv rs pos = Some (u, v, pos')"
  shows "0 < u \<and> u < 1 \<and> 0 < v \<and> v < 1 \<and> 0 < - 2 * ln u \<and>
         gaussian mean std rs pos =
           Some (mean + sqrt (- 2 * ln u) * cos (2 * pi * v) * std, pos') \<and>
         (\<exists>p1. pos < p1 \<and> p1 < pos' \<and>
            u = rs (p1 - 1) \<and> (\<forall>k. pos \<le> k \<and> k < p1 - 1 \<longrightarrow> rs k = 0) \<and>
            v = rs (pos' - 1) \<and> (\<forall>k. p1 \<le> k \<and> k < pos' - 1 \<longrightarrow> rs k = 0))"
proof -
  from gaussian_uv_SomeD[OF assms(2)] obtain p1
    where r1: "redraw rs 0 pos = Some (u, p1)" and r2: "redraw rs 0 p1 = Some (v, pos')"
    by blast
  note a = redraw_from_zero[OF r1] and b = redraw_from_zero[OF r2]
  from a assms(1) have u: "0 < u" "u < 1"
    by (auto simp: uniform01_def less_le)
  from b assms(1) have v: "0 < v" "v < 1"
    by (auto simp: uniform01_def less_le)
  have g: "gaussian mean std rs pos =
      Some (mean + sqrt (- 2 * ln u) * cos (2 * pi * v) * std, pos')"
    using assms(2) by (simp add: gaussian_def box_muller_def)
  from u v g a b ln_arg_positive[OF u] show ?thesis by blast
qed

theorem gaussian_never_takes_ln_of_zero_witness:
  "uniform01 zero_once \<and> gaussian_uv zero_once 0 = Some (1 / 4, 1 / 4, 3) \<and>
   (0::real) < 1 / 4 \<and> 0 < - 2 * ln (1 / 4 :: real) \<and>
   gaussian 0 1 zero_once 0 = Some (0, 3)"
proof -
  from gaussian_never_takes_ln_of_zero[OF uniform01_zero_once zero_once_uv, of 0 1]
    uniform01_zero_once zero_once_uv
  show ?thesis by simp
qed

subsection \<open>The statements before the loop\<close>

lemma init_eq:
  "init rs now n =
     (\<lparr>drift = (rs 3 - 0.45) * 0.0012,
       anchor = (300000000 + rs 0 * 900000000) * (if rs 1 > 0.5 then 1 else 0.9) *
                (0.98 + rs 5 * 0.05),
       baseUsers = Math_floor (40 + rs 2 * 160),
       startDate = shiftDays now (- (n - 1)),
       days = n\<rparr>,
      \<lparr>vol = 0.004 + rs 4 * (0.014 - 0.004),
       balance = (300000000 + rs 0 * 900000000) * (if rs 1 > 0.5 then 1 else 0.9),
       users = Math_floor (40 + rs 2 * 160)\<rparr>,
      6)"
  by (simp add: init_def Math_random_def FletcherVol_def Let_def eval_nat_numeral)

lemma init_quarters:
  "init quarters now n =
     (\<lparr>drift = - 0.00024, anchor = 468956250, baseUsers = 80,
       startDate = shiftDays now (- (n - 1)), days = n\<rparr>,
      \<lparr>vol = 0.0065, balance = 472500000, users = 80\<rparr>, 6)"
  by (simp add: init_eq quarters_def Math_floor_def)

text \<open>
  C8. The drift is drawn once, before the loop, as \<open>(U - 0.45) \<cdot> 0.0012\<close> from the fourth
  number \<open>U\<close> of the random source, and it is a parameter that no iteration changes. For
  \<open>U\<close> in \<open>[0, 1)\<close> it lies in the interval \<open>[-0.00225, 0.00126]\<close> of the
  specification.
\<close>

theorem drift_fixed_within_interval:
  assumes "uniform01 rs"
  shows "drift (fst (init rs now n)) = (rs 3 - 0.45) * 0.0012 \<and>
         - 0.00225 \<le> drift (fst (init rs now n)) \<and>
         drift (fst (init rs now n)) \<le> 0.00126"
proof -
  from assms have "0 \<le> rs 3" "rs 3 < 1"
    by (auto simp: uniform01_def)
  then show ?thesis
    by (simp add: init_eq)
qed

theorem drift_fixed_within_interval_witness:
  "uniform01 quarters \<and> drift (fst (init quarters today 7)) = - 0.00024 \<and>
   - 0.00225 \<le> drift (fst (init quarters today 7)) \<and>
   drift (fst (init quarters today 7)) \<le> 0.00126"
  using drift_fixed_within_interval[OF uniform01_quarters, of today 7] uniform01_quarters
  by (simp add: init_quarters)

subsection \<open>The loop\<close>

lemma loop_done: "\<not> i < days c \<Longrightarrow> loop c rs i s pos data = Some (s, data, pos)"
  by (subst loop.simps) simp

lemma loop_step:
  "i < days c \<Longrightarrow> loop_body c rs i s pos = Some (s', pt, pos') \<Longrightarrow>
   loop c rs i s pos data = loop c rs (i + 1) s' pos' (data @ [pt])"
  by (subst loop.simps) simp

lemma loop_stuck:
  "i < days c \<Longrightarrow> loop_body c rs i s pos = None \<Longrightarrow> loop c rs i s pos data = None"
  by (subst loop.simps) simp

text \<open>
  C10. For an argument \<open>days \<le> 0\<close> the loop body never runs: the call returns the empty
  array, on every random source (no floor of \<open>1\<close> is applied).
\<close>

theorem nonpositive_days_empty:
  assumes "n \<le> 0"
  shows "generateTradingSeries rs now n = Some []"
  using assms by (simp add: generateTradingSeries_def init_eq loop_done)

theorem nonpositive_days_empty_witness:
  "(- 3 :: int) \<le> 0 \<and> generateTradingSeries zeros today (- 3) = Some [] \<and>
   generateTradingSeries quarters today 0 = Some []"
  using nonpositive_days_empty[of "- 3" zeros today] nonpositive_days_empty[of 0 quarters today]
  by simp

lemma loop_body_SomeD:
  assumes "loop_body c rs i s pos = Some (s', pt, pos')"
  shows "\<exists>v1 p1 shock p2 noise p3 u1.
           vol_step (vol s) rs pos = (v1, p1) \<and> shock_draw rs p1 = (shock, p2) \<and>
           gaussian 0 v1 rs p2 = Some (noise, p3) \<and>
           users_step c (users s) shock rs p3 = (u1, pos') \<and>
           s' = \<lparr>vol = v1, balance = apply_return c (balance s) noise shock, users = u1\<rparr> \<and>
           pt = \<lparr>date = toISODate (shiftDays (startDate c) i),
                 totalBalance = Math_round (apply_return c (balance s) noise shock),
                 activeUsers = u1\<rparr>"
  using assms
  by (auto simp: loop_body_def Let_def split: prod.splits option.splits)

lemma loop_body_SomeI:
  assumes "vol_step (vol s) rs pos = (v1, p1)" "shock_draw rs p1 = (shock, p2)"
    "gaussian 0 v1 rs p2 = Some (noise, p3)"
  shows "loop_body c rs i s pos =
           Some (\<lparr>vol = v1, balance = apply_return c (balance s) noise shock,
                  users = fst (users_step c (users s) shock rs p3)\<rparr>,
                 \<lparr>date = toISODate (shiftDays (startDate c) i),
                  totalBalance = Math_round (apply_return c (balance s) noise shock),
                  activeUsers = fst (users_step c (users s) shock rs p3)\<rparr>,
                 snd (users_step c (users s) shock rs p3))"
  using assms
  by (simp add: loop_body_def Let_def split: prod.splits)

lemma loop_body_terminates:
  assumes "nonzero_recurs rs"
  shows "\<exists>s' pt pos'. loop_body c rs i s pos = Some (s', pt, pos')"
proof -
  obtain v1 p1 where a: "vol_step (vol s) rs pos = (v1, p1)" by (cases "vol_step (vol s) rs pos")
  obtain shock p2 where b: "shock_draw rs p1 = (shock, p2)" by (cases "shock_draw rs p1")
  from gaussian_terminates[OF assms, of 0 v1 p2]
  obtain noise p3 where g: "gaussian 0 v1 rs p2 = Some (noise, p3)" by blast
  from loop_body_SomeI[OF a b g] show ?thesis by blast
qed

lemma loop_invariant:
  assumes "loop c rs i s pos data = Some (s', data', pos')"
    and "I s data"
    and "\<And>i s pos data s1 pt p1.
           I s data \<Longrightarrow> loop_body c rs i s pos = Some (s1, pt, p1) \<Longrightarrow> I s1 (data @ [pt])"
  shows "I s' data'"
  using assms
proof (induction c rs i s pos data rule: loop.induct)
  case (1 c rs i s pos data)
  note step = 1(4)
  show ?case
  proof (cases "i < days c")
    case True
    show ?thesis
    proof (cases "loop_body c rs i s pos")
      case None
      with True 1(2) show ?thesis by (simp add: loop_stuck)
    next
      case (Some r)
      obtain s1 pt p1 where r: "r = (s1, pt, p1)" by (cases r)
      from Some r have b: "loop_body c rs i s pos = Some (s1, pt, p1)" by simp
      from 1(2) have l: "loop c rs (i + 1) s1 p1 (data @ [pt]) = Some (s', data', pos')"
        by (simp add: loop_step[OF True b])
      have "I s1 (data @ [pt])" by (rule step[OF 1(3) b])
      from "1.IH"[OF True b refl refl l this step] show ?thesis .
    qed
  next
    case False
    with 1(2,3) show ?thesis by (simp add: loop_done)
  qed
qed


lemma clamp_bounds: "mn \<le> mx \<Longrightarrow> mn \<le> clamp n mn mx \<and> clamp n mn mx \<le> mx"
  by (simp add: clamp_def)

lemma vol_step_eq:
  "vol_step v rs pos =
     (if rs pos < 0.18 then (clamp (v * (0.85 + rs (Suc pos) * 0.7)) 0.003 0.03, Suc (Suc pos))
      else (v, Suc pos))"
  by (simp add: vol_step_def Math_random_def Let_def)

lemma vol_step_bounds:
  assumes "0.003 \<le> v" "v \<le> 0.03" "vol_step v rs pos = (v', p)"
  shows "0.003 \<le> v' \<and> v' \<le> 0.03"
  using assms clamp_bounds[of "0.003::real" "0.03" "v * (0.85 + rs (Suc pos) * 0.7)"]
  by (auto simp: vol_step_eq split: if_splits)

lemma apply_return_nonneg: "0 \<le> apply_return c bal noise shock"
  by (simp add: apply_return_def Let_def)

lemma Math_round_nonneg: "0 \<le> x \<Longrightarrow> 0 \<le> Math_round x"
  by (simp add: Math_round_def)

lemma Math_round_mono: "x \<le> y \<Longrightarrow> Math_round x \<le> Math_round y"
  by (simp add: Math_round_def floor_mono)

lemma users_bounds_ordered:
  assumes "4 \<le> b"
  shows "max 5 (Math_round (of_int b * 0.6)) \<le> Math_round (of_int b * 1.4)"
proof -
  from assms have "(4::real) \<le> of_int b" by linarith
  then have "(5::real) \<le> of_int b * 1.4 + 1 / 2" by simp
  then have "5 \<le> Math_round (of_int b * 1.4)"
    unfolding Math_round_def by (simp add: le_floor_iff)
  moreover from assms have "Math_round (of_int b * 0.6) \<le> Math_round (of_int b * 1.4)"
    by (intro Math_round_mono) simp
  ultimately show ?thesis by simp
qed

lemma users_step_bounds:
  assumes "4 \<le> baseUsers c" "users_step c au shock rs pos = (u1, p)"
  shows "max 5 (Math_round (of_int (baseUsers c) * 0.6)) \<le> u1 \<and>
         u1 \<le> Math_round (of_int (baseUsers c) * 1.4)"
proof -
  from assms(2) have "\<exists>x. u1 = clamp x (max 5 (Math_round (of_int (baseUsers c) * 0.6)))
      (Math_round (of_int (baseUsers c) * 1.4))"
    by (auto simp: users_step_def Let_def split: prod.splits if_splits)
  then show ?thesis
    using clamp_bounds[OF users_bounds_ordered[OF assms(1)]] by auto
qed

lemma baseUsers_range:
  assumes "uniform01 rs"
  shows "40 \<le> Math_floor (40 + rs 2 * 160) \<and> Math_floor (40 + rs 2 * 160) < 200"
proof -
  from assms have "0 \<le> rs 2" "rs 2 < 1" by (auto simp: uniform01_def)
  then show ?thesis
    by (simp add: Math_floor_def le_floor_iff floor_less_iff)
qed

lemma gen_SomeD:
  assumes "generateTradingSeries rs now n = Some pts"
  shows "\<exists>s' pos'. loop (fst (init rs now n)) rs 0 (fst (snd (init rs now n))) 6 [] = Some (s', pts, pos')"
  using assms
  by (auto simp: generateTradingSeries_def init_eq split: option.splits)

subsection \<open>Concrete runs\<close>

lemma vol_step_quarters: "vol_step v quarters pos = (v, Suc pos)"
  by (simp add: vol_step_def Math_random_def quarters_def)

lemma shock_draw_quarters: "shock_draw quarters pos = (0, Suc pos)"
  by (simp add: shock_draw_def Math_random_def quarters_def)

lemma gaussian_quarters: "gaussian 0 std quarters pos = Some (0, Suc (Suc pos))"
  by (simp add: gaussian_def gaussian_uv_def redraw_zero_step redraw_nonzero quarters_def
      box_muller_def)

lemma users_step_quarters:
  "users_step c au 0 quarters pos =
     (clamp (Math_round (of_int au - 3 / 2)) (max 5 (Math_round (of_int (baseUsers c) * 0.6)))
        (Math_round (of_int (baseUsers c) * 1.4)), Suc pos)"
  by (simp add: users_step_def Math_random_def quarters_def)

lemma loop_body_quarters:
  "loop_body c quarters i s pos =
     Some (\<lparr>vol = vol s, balance = apply_return c (balance s) 0 0,
            users = fst (users_step c (users s) 0 quarters (pos + 4))\<rparr>,
           \<lparr>date = toISODate (shiftDays (startDate c) i),
            totalBalance = Math_round (apply_return c (balance s) 0 0),
            activeUsers = fst (users_step c (users s) 0 quarters (pos + 4))\<rparr>,
           pos + 5)"
  by (simp add: loop_body_def vol_step_quarters shock_draw_quarters gaussian_quarters
      users_step_quarters Let_def)

lemma dates_today_3:
  "toISODate (shiftDays (shiftDays today (- 2)) 0) = ''2026-10-30''"
  "toISODate (shiftDays (shiftDays today (- 2)) 1) = ''2026-10-31''"
  "toISODate (shiftDays (shiftDays today (- 2)) 2) = ''2026-11-01''"
  by code_simp+

lemma gen_quarters_3:
  "generateTradingSeries quarters today 3 =
     Some [\<lparr>date = ''2026-10-30'', totalBalance = 472100958, activeUsers = 79\<rparr>,
           \<lparr>date = ''2026-10-31'', totalBalance = 471734390, activeUsers = 78\<rparr>,
           \<lparr>date = ''2026-11-01'', totalBalance = 471397606, activeUsers = 77\<rparr>]"
  apply (simp add: generateTradingSeries_def init_quarters)
  apply (subst loop.simps, simp add: loop_body_quarters)
  apply (subst loop.simps, simp add: loop_body_quarters)
  apply (subst loop.simps, simp add: loop_body_quarters)
  apply (simp add: loop_done dates_today_3)
  apply (simp add: users_step_quarters apply_return_def clamp_def Math_round_def)
  done

lemma apply_return_spec:
  "apply_return c bal noise shock = spec_balance_step (drift c) (anchor c) bal noise shock"
  by (simp add: apply_return_def spec_balance_step_def spec_balance_update_def
      spec_mean_reversion_def spec_daily_return_def Let_def mult.commute)

text \<open>
  C5. One iteration transforms the balance as steps 4 to 6 of the specification say. With
  \<open>shock\<close> and \<open>noise\<close> the shock and the normal sample drawn in the iteration, the
  iteration returns, and its new balance is
  \<open>max (0, balance \<cdot> (1 + dailyReturn))\<close> for
  \<open>dailyReturn = drift + noise + shock - 0.08 \<cdot> ((balance - anchor) / anchor)\<close>, which is
  the specification's step applied to the old balance; the point emitted carries that
  balance, rounded.
\<close>

theorem balance_step_follows_spec:
  assumes "vol_step (vol s) rs pos = (v1, p1)" and "shock_draw rs p1 = (shock, p2)"
    and "gaussian 0 v1 rs p2 = Some (noise, p3)"
  shows "\<exists>s' pt pos'. loop_body c rs i s pos = Some (s', pt, pos') \<and>
           balance s' = spec_balance_step (drift c) (anchor c) (balance s) noise shock \<and>
           balance s' =
             max 0 (balance s *
               (1 + (drift c + noise + shock - 0.08 * ((balance s - anchor c) / anchor c)))) \<and>
           totalBalance pt = Math_round (balance s')"
proof -
  have "spec_balance_step (drift c) (anchor c) (balance s) noise shock =
      max 0 (balance s *
        (1 + (drift c + noise + shock - 0.08 * ((balance s - anchor c) / anchor c))))"
    by (simp add: spec_balance_step_def spec_balance_update_def spec_mean_reversion_def
        spec_daily_return_def)
  with loop_body_SomeI[OF assms, of c i] show ?thesis
    by (simp add: apply_return_spec)
qed

theorem balance_step_follows_spec_witness:
  "vol_step (13 / 2000) quarters 6 = (13 / 2000, 7) \<and> shock_draw quarters 7 = (0, 8) \<and>
   gaussian 0 (13 / 2000) quarters 8 = Some (0, 10) \<and>
   (\<exists>s' pt pos'.
      loop_body \<lparr>drift = - 0.00024, anchor = 468956250, baseUsers = 80, startDate = today,
                 days = 1\<rparr> quarters 0 \<lparr>vol = 13 / 2000, balance = 472500000, users = 80\<rparr> 6 =
        Some (s', pt, pos') \<and>
      balance s' = spec_balance_step (- 0.00024) 468956250 472500000 0 0 \<and>
      totalBalance pt = Math_round (balance s'))"
proof -
  have a: "vol_step (vol \<lparr>vol = 13 / 2000, balance = 472500000, users = 80\<rparr>) quarters 6 =
      (13 / 2000, 7)"
    by (simp add: vol_step_quarters)
  have b: "shock_draw quarters 7 = (0, 8)"
    by (simp add: shock_draw_quarters)
  have g: "gaussian 0 (13 / 2000) quarters 8 = Some (0, 10)"
    by (simp add: gaussian_quarters)
  from balance_step_follows_spec[OF a b g,
      of "\<lparr>drift = - 0.00024, anchor = 468956250, baseUsers = 80, startDate = today, days = 1\<rparr>" 0]
    a b g
  show ?thesis by auto
qed

lemma init_tenths:
  "init tenths now n =
     (\<lparr>drift = - 0.00042, anchor = 345735000, baseUsers = 56,
       startDate = shiftDays now (- (n - 1)), days = n\<rparr>,
      \<lparr>vol = 0.005, balance = 351000000, users = 56\<rparr>, 6)"
  by (simp add: init_eq tenths_def Math_floor_def)

lemma uniform01_tenths: "uniform01 tenths"
  by (simp add: uniform01_def tenths_def)

lemma nonzero_recurs_tenths: "nonzero_recurs tenths"
  by (auto simp: nonzero_recurs_def tenths_def)

lemma vol_init_range:
  assumes "uniform01 rs"
  shows "0.004 \<le> vol (fst (snd (init rs now n))) \<and> vol (fst (snd (init rs now n))) \<le> 0.014"
proof -
  from assms have "0 \<le> rs 4" "rs 4 < 1" by (auto simp: uniform01_def)
  then show ?thesis by (simp add: init_eq)
qed

lemma loop_body_vol:
  assumes "loop_body c rs i s pos = Some (s', pt, pos')"
  shows "vol s' = fst (vol_step (vol s) rs pos)"
  using loop_body_SomeD[OF assms] by auto

text \<open>
  C7. The running volatility stays within \<open>[0.003, 0.03]\<close> throughout a call, on any
  random source within \<open>[0, 1)\<close>. It starts in \<open>[0.004, 0.014]\<close>. Every iteration that
  starts with a volatility within \<open>[0.003, 0.03]\<close> ends with one: when the iteration's
  first draw is below \<open>0.18\<close> the volatility is multiplied by \<open>0.85 + U \<cdot> 0.7\<close>, a factor
  in \<open>[0.85, 1.55)\<close>, and clamped to \<open>[0.003, 0.03]\<close>; otherwise it is unchanged. So the
  volatility the loop ends with is within the bounds, and so is the volatility after any
  number \<open>k\<close> of iterations (the loop run with the bound \<open>k\<close> in place of \<open>days\<close>).
\<close>

theorem volatility_stays_within_bounds:
  assumes "uniform01 rs" and "init rs now n = (c, s0, p0)"
  shows "(0.004 \<le> vol s0 \<and> vol s0 \<le> 0.014) \<and>
         (\<forall>i s pos s' pt pos'.
            0.003 \<le> vol s \<and> vol s \<le> 0.03 \<and> loop_body c rs i s pos = Some (s', pt, pos') \<longrightarrow>
            0.003 \<le> vol s' \<and> vol s' \<le> 0.03 \<and>
            (if rs pos < 0.18
             then vol s' = clamp (vol s * (0.85 + rs (Suc pos) * 0.7)) 0.003 0.03 \<and>
                  0.85 \<le> 0.85 + rs (Suc pos) * 0.7 \<and> 0.85 + rs (Suc pos) * 0.7 < 1.55
             else vol s' = vol s)) \<and>
         (\<forall>sN data pN.
            loop c rs 0 s0 p0 [] = Some (sN, data, pN) \<longrightarrow> 0.003 \<le> vol sN \<and> vol sN \<le> 0.03) \<and>
         (\<forall>k sK data pK.
            loop (c\<lparr>days := k\<rparr>) rs 0 s0 p0 [] = Some (sK, data, pK) \<longrightarrow>
            0.003 \<le> vol sK \<and> vol sK \<le> 0.03)"
proof -
  from vol_init_range[OF assms(1), of now n] assms(2)
  have v0: "0.004 \<le> vol s0 \<and> vol s0 \<le> 0.014" by simp
  have step: "0.003 \<le> vol s' \<and> vol s' \<le> 0.03 \<and>
            (if rs pos < 0.18
             then vol s' = clamp (vol s * (0.85 + rs (Suc pos) * 0.7)) 0.003 0.03 \<and>
                  0.85 \<le> 0.85 + rs (Suc pos) * 0.7 \<and> 0.85 + rs (Suc pos) * 0.7 < 1.55
             else vol s' = vol s)"
    if "0.003 \<le> vol s \<and> vol s \<le> 0.03 \<and> loop_body c' rs i s pos = Some (s', pt, pos')"
    for c' i s pos s' pt pos'
  proof -
    from that have b: "loop_body c' rs i s pos = Some (s', pt, pos')" by simp
    from assms(1) have r: "0 \<le> rs (Suc pos)" "rs (Suc pos) < 1" by (auto simp: uniform01_def)
    have e: "vol s' = fst (vol_step (vol s) rs pos)" by (rule loop_body_vol[OF b])
    obtain v' p where vs: "vol_step (vol s) rs pos = (v', p)" by (cases "vol_step (vol s) rs pos")
    from that vol_step_bounds[OF _ _ vs] e vs have "0.003 \<le> vol s' \<and> vol s' \<le> 0.03" by simp
    moreover from e r have "if rs pos < 0.18
             then vol s' = clamp (vol s * (0.85 + rs (Suc pos) * 0.7)) 0.003 0.03 \<and>
                  0.85 \<le> 0.85 + rs (Suc pos) * 0.7 \<and> 0.85 + rs (Suc pos) * 0.7 < 1.55
             else vol s' = vol s"
      by (simp add: vol_step_eq)
    ultimately show ?thesis by simp
  qed
  have fin: "0.003 \<le> vol sN \<and> vol sN \<le> 0.03"
    if l: "loop c' rs 0 s0 p0 [] = Some (sN, data, pN)" for c' sN data pN
  proof (rule loop_invariant[OF l, where I = "\<lambda>s d. 0.003 \<le> vol s \<and> vol s \<le> 0.03"])
    from v0 show "0.003 \<le> vol s0 \<and> vol s0 \<le> 0.03" by simp
  next
    fix i s pos data s1 pt p1
    assume "0.003 \<le> vol s \<and> vol s \<le> 0.03" "loop_body c' rs i s pos = Some (s1, pt, p1)"
    with step[of s c' i pos s1 pt p1] show "0.003 \<le> vol s1 \<and> vol s1 \<le> 0.03" by simp
  qed
  show ?thesis
  proof (intro conjI allI impI)
    from v0 show "0.004 \<le> vol s0" "vol s0 \<le> 0.014" by simp_all
  next
    fix i s pos s' pt pos'
    assume "0.003 \<le> vol s \<and> vol s \<le> 0.03 \<and> loop_body c rs i s pos = Some (s', pt, pos')"
    from step[OF this]
    show "0.003 \<le> vol s'" "vol s' \<le> 0.03"
      "if rs pos < 0.18
       then vol s' = clamp (vol s * (0.85 + rs (Suc pos) * 0.7)) 0.003 0.03 \<and>
            0.85 \<le> 0.85 + rs (Suc pos) * 0.7 \<and> 0.85 + rs (Suc pos) * 0.7 < 1.55
       else vol s' = vol s"
      by blast+
  next
    fix sN data pN
    assume "loop c rs 0 s0 p0 [] = Some (sN, data, pN)"
    from fin[OF this] show "0.003 \<le> vol sN" "vol sN \<le> 0.03" by simp_all
  next
    fix k sK data pK
    assume "loop (c\<lparr>days := k\<rparr>) rs 0 s0 p0 [] = Some (sK, data, pK)"
    from fin[OF this] show "0.003 \<le> vol sK" "vol sK \<le> 0.03" by simp_all
  qed
qed

theorem volatility_stays_within_bounds_witness:
  "uniform01 tenths \<and>
   init tenths today 3 =
     (\<lparr>drift = - 0.00042, anchor = 345735000, baseUsers = 56,
       startDate = shiftDays today (- 2), days = 3\<rparr>,
      \<lparr>vol = 0.005, balance = 351000000, users = 56\<rparr>, 6) \<and>
   (\<exists>s' pt pos'.
      loop_body \<lparr>drift = - 0.00042, anchor = 345735000, baseUsers = 56,
        startDate = shiftDays today (- 2), days = 3\<rparr> tenths 0
        \<lparr>vol = 0.005, balance = 351000000, users = 56\<rparr> 6 = Some (s', pt, pos') \<and>
      vol s' = 0.0046 \<and> 0.003 \<le> vol s' \<and> vol s' \<le> 0.03)"
proof -
  let ?c = "\<lparr>drift = - 0.00042, anchor = 345735000, baseUsers = 56,
        startDate = shiftDays today (- 2), days = 3\<rparr>"
  let ?s = "\<lparr>vol = 0.005, balance = 351000000, users = 56\<rparr>"
  have i: "init tenths today 3 = (?c, ?s, 6)"
    by (simp add: init_tenths)
  from loop_body_terminates[OF nonzero_recurs_tenths, of ?c 0 ?s 6]
  obtain s' pt pos' where b: "loop_body ?c tenths 0 ?s 6 = Some (s', pt, pos')" by blast
  from volatility_stays_within_bounds[OF uniform01_tenths i, THEN conjunct2, THEN conjunct1,
      rule_format, of ?s 0 6 s' pt pos'] b
  have "vol s' = 0.0046 \<and> 0.003 \<le> vol s' \<and> vol s' \<le> 0.03"
    by (simp add: tenths_def clamp_def)
  with uniform01_tenths i b show ?thesis by blast
qed

lemma loop_body_totalBalance:
  assumes "loop_body c rs i s pos = Some (s', pt, pos')"
  shows "0 \<le> balance s' \<and> 0 \<le> totalBalance pt"
  using loop_body_SomeD[OF assms]
  by (auto simp: apply_return_nonneg Math_round_nonneg)

lemma loop_body_activeUsers:
  assumes "loop_body c rs i s pos = Some (s', pt, pos')" "4 \<le> baseUsers c"
  shows "max 5 (Math_round (of_int (baseUsers c) * 0.6)) \<le> activeUsers pt \<and>
         activeUsers pt \<le> Math_round (of_int (baseUsers c) * 1.4) \<and> users s' = activeUsers pt"
proof -
  from loop_body_SomeD[OF assms(1)] obtain shock p3 u1
    where u: "users_step c (users s) shock rs p3 = (u1, pos')"
      and "activeUsers pt = u1" "users s' = u1"
    by auto
  with users_step_bounds[OF assms(2) u] show ?thesis by simp
qed

text \<open>
  C2. No point emitted by \<^verbatim>\<open>generateTradingSeries\<close> has a negative \<open>totalBalance\<close>,
  for any argument and on any random source. Every iteration that completes sets the
  balance to \<open>max (0, balance \<cdot> (1 + dailyReturn))\<close>, which is not negative, and the
  point it pushes carries that balance rounded; so every point of a returned array has a
  \<open>totalBalance\<close> of at least \<open>0\<close>.
\<close>

theorem totalBalance_never_negative:
  assumes "generateTradingSeries rs now n = Some pts"
  shows "(\<forall>p \<in> set pts. 0 \<le> totalBalance p) \<and>
         (\<forall>c i s pos s' pt pos'.
            loop_body c rs i s pos = Some (s', pt, pos') \<longrightarrow>
            (\<exists>dailyReturn. balance s' = max 0 (balance s * (1 + dailyReturn))) \<and>
            0 \<le> balance s' \<and> totalBalance pt = Math_round (balance s') \<and>
            0 \<le> totalBalance pt)"
proof -
  from gen_SomeD[OF assms] obtain s' pos'
    where l: "loop (fst (init rs now n)) rs 0 (fst (snd (init rs now n))) 6 [] =
        Some (s', pts, pos')"
    by blast
  have a: "\<forall>p \<in> set pts. 0 \<le> totalBalance p"
  proof (rule loop_invariant[OF l,
        where I = "\<lambda>s (d :: SeriesPoint list). \<forall>p \<in> set d. 0 \<le> totalBalance p"])
    show "\<forall>p \<in> set ([] :: SeriesPoint list). 0 \<le> totalBalance p" by simp
  next
    fix i s pos and data :: "SeriesPoint list" and s1 pt p1
    assume "\<forall>p \<in> set data. 0 \<le> totalBalance p"
      and "loop_body (fst (init rs now n)) rs i s pos = Some (s1, pt, p1)"
    with loop_body_totalBalance show "\<forall>p \<in> set (data @ [pt]). 0 \<le> totalBalance p"
      by auto
  qed
  have b: "(\<exists>dailyReturn. balance s' = max 0 (balance s * (1 + dailyReturn))) \<and>
      0 \<le> balance s' \<and> totalBalance pt = Math_round (balance s') \<and> 0 \<le> totalBalance pt"
    if lb: "loop_body c rs i s pos = Some (s', pt, pos')" for c i s pos s' pt pos'
  proof -
    from loop_body_SomeD[OF lb] obtain noise shock
      where e: "balance s' = apply_return c (balance s) noise shock"
        "totalBalance pt = Math_round (apply_return c (balance s) noise shock)"
      by auto
    from e(1) have "\<exists>dailyReturn. balance s' = max 0 (balance s * (1 + dailyReturn))"
      unfolding apply_return_def Let_def by (rule exI)
    with e loop_body_totalBalance[OF lb] show ?thesis by simp
  qed
  from a b show ?thesis by blast
qed

theorem totalBalance_never_negative_witness:
  "generateTradingSeries quarters today 3 =
     Some [\<lparr>date = ''2026-10-30'', totalBalance = 472100958, activeUsers = 79\<rparr>,
           \<lparr>date = ''2026-10-31'', totalBalance = 471734390, activeUsers = 78\<rparr>,
           \<lparr>date = ''2026-11-01'', totalBalance = 471397606, activeUsers = 77\<rparr>] \<and>
   (0::int) \<le> 472100958 \<and> (0::int) \<le> 471734390 \<and> (0::int) \<le> 471397606"
  using totalBalance_never_negative[OF gen_quarters_3, THEN conjunct1] gen_quarters_3
  by simp

text \<open>
  C3. With \<open>base\<close> the starting active-user count, \<open>floor (40 + U \<cdot> 160)\<close> for the third
  number \<open>U\<close> of the random source and so an integer in \<open>[40, 200)\<close>, every point
  emitted has its \<open>activeUsers\<close> within
  \<open>[max (5, round (0.6 \<cdot> base)), round (1.4 \<cdot> base)]\<close>, on any random source within
  \<open>[0, 1)\<close>: the point pushed by every iteration that completes, and so every point of
  a returned array.
\<close>

theorem activeUsers_within_bounds:
  assumes "uniform01 rs" and "generateTradingSeries rs now n = Some pts"
  shows "baseUsers (fst (init rs now n)) = Math_floor (40 + rs 2 * 160) \<and>
         users (fst (snd (init rs now n))) = baseUsers (fst (init rs now n)) \<and>
         40 \<le> baseUsers (fst (init rs now n)) \<and> baseUsers (fst (init rs now n)) < 200 \<and>
         (\<forall>p \<in> set pts.
            max 5 (Math_round (of_int (baseUsers (fst (init rs now n))) * 0.6)) \<le> activeUsers p \<and>
            activeUsers p \<le> Math_round (of_int (baseUsers (fst (init rs now n))) * 1.4)) \<and>
         (\<forall>i s pos s' pt pos'.
            loop_body (fst (init rs now n)) rs i s pos = Some (s', pt, pos') \<longrightarrow>
            max 5 (Math_round (of_int (baseUsers (fst (init rs now n))) * 0.6)) \<le> activeUsers pt \<and>
            activeUsers pt \<le> Math_round (of_int (baseUsers (fst (init rs now n))) * 1.4))"
proof -
  let ?c = "fst (init rs now n)"
  let ?lo = "max 5 (Math_round (of_int (baseUsers ?c) * 0.6))"
  let ?hi = "Math_round (of_int (baseUsers ?c) * 1.4)"
  from baseUsers_range[OF assms(1)]
  have b: "baseUsers ?c = Math_floor (40 + rs 2 * 160)" "40 \<le> baseUsers ?c" "baseUsers ?c < 200"
    and u: "users (fst (snd (init rs now n))) = baseUsers ?c"
    by (simp_all add: init_eq)
  from b(2) have four: "4 \<le> baseUsers ?c" by simp
  have step: "?lo \<le> activeUsers pt \<and> activeUsers pt \<le> ?hi"
    if lb: "loop_body ?c rs i s pos = Some (s', pt, pos')" for i s pos s' pt pos'
    using loop_body_activeUsers[OF lb four] by simp
  from gen_SomeD[OF assms(2)] obtain s' pos'
    where l: "loop ?c rs 0 (fst (snd (init rs now n))) 6 [] = Some (s', pts, pos')"
    by blast
  have all: "\<forall>p \<in> set pts. ?lo \<le> activeUsers p \<and> activeUsers p \<le> ?hi"
  proof (rule loop_invariant[OF l, where I = "\<lambda>s (d :: SeriesPoint list).
      \<forall>p \<in> set d. ?lo \<le> activeUsers p \<and> activeUsers p \<le> ?hi"])
    show "\<forall>p \<in> set ([] :: SeriesPoint list). ?lo \<le> activeUsers p \<and> activeUsers p \<le> ?hi"
      by simp
  next
    fix i s pos and data :: "SeriesPoint list" and s1 pt p1
    assume d: "\<forall>p \<in> set data. ?lo \<le> activeUsers p \<and> activeUsers p \<le> ?hi"
      and lb: "loop_body ?c rs i s pos = Some (s1, pt, p1)"
    from step[OF lb] d
    show "\<forall>p \<in> set (data @ [pt]). ?lo \<le> activeUsers p \<and> activeUsers p \<le> ?hi"
      by auto
  qed
  show ?thesis
  proof (intro conjI allI impI)
    show "baseUsers ?c = Math_floor (40 + rs 2 * 160)" by (rule b(1))
    show "users (fst (snd (init rs now n))) = baseUsers ?c" by (rule u)
    show "40 \<le> baseUsers ?c" by (rule b(2))
    show "baseUsers ?c < 200" by (rule b(3))
    show "\<forall>p \<in> set pts. ?lo \<le> activeUsers p \<and> activeUsers p \<le> ?hi" by (rule all)
  next
    fix i s pos s' pt pos'
    assume "loop_body ?c rs i s pos = Some (s', pt, pos')"
    from step[OF this] show "?lo \<le> activeUsers pt" "activeUsers pt \<le> ?hi" by simp_all
  qed
qed

theorem activeUsers_within_bounds_witness:
  "uniform01 quarters \<and>
   generateTradingSeries quarters today 3 =
     Some [\<lparr>date = ''2026-10-30'', totalBalance = 472100958, activeUsers = 79\<rparr>,
           \<lparr>date = ''2026-10-31'', totalBalance = 471734390, activeUsers = 78\<rparr>,
           \<lparr>date = ''2026-11-01'', totalBalance = 471397606, activeUsers = 77\<rparr>] \<and>
   baseUsers (fst (init quarters today 3)) = 80 \<and>
   max 5 (Math_round (80 * 0.6)) = 48 \<and> Math_round (80 * 1.4) = 112 \<and>
   (48::int) \<le> 79 \<and> (79::int) \<le> 112 \<and> (48::int) \<le> 77 \<and> (77::int) \<le> 112"
  using activeUsers_within_bounds[OF uniform01_quarters gen_quarters_3]
    uniform01_quarters gen_quarters_3
  by (simp add: init_quarters Math_round_def)

subsection \<open>Termination, length and dates of the series\<close>

lemma loop_terminates:
  assumes "nonzero_recurs rs"
  shows "\<exists>r. loop c rs i s pos data = Some r"
  using assms
proof (induction c rs i s pos data rule: loop.induct)
  case (1 c rs i s pos data)
  show ?case
  proof (cases "i < days c")
    case True
    from loop_body_terminates[OF 1(2), of c i s pos]
    obtain s1 pt p1 where b: "loop_body c rs i s pos = Some (s1, pt, p1)" by blast
    from "1.IH"[OF True b refl refl 1(2)] show ?thesis
      by (simp add: loop_step[OF True b])
  next
    case False
    then show ?thesis by (simp add: loop_done)
  qed
qed

lemma loop_dates:
  assumes "loop c rs i s pos data = Some (s', data', pos')"
  shows "map date data' =
         map date data @ map (\<lambda>k. toISODate (shiftDays (startDate c) k)) [i..days c - 1]"
  using assms
proof (induction c rs i s pos data rule: loop.induct)
  case (1 c rs i s pos data)
  show ?case
  proof (cases "i < days c")
    case True
    show ?thesis
    proof (cases "loop_body c rs i s pos")
      case None
      with True 1(2) show ?thesis by (simp add: loop_stuck)
    next
      case (Some r)
      obtain s1 pt p1 where r: "r = (s1, pt, p1)" by (cases r)
      from Some r have b: "loop_body c rs i s pos = Some (s1, pt, p1)" by simp
      from 1(2) have l: "loop c rs (i + 1) s1 p1 (data @ [pt]) = Some (s', data', pos')"
        by (simp add: loop_step[OF True b])
      from loop_body_SomeD[OF b] have d: "date pt = toISODate (shiftDays (startDate c) i)"
        by auto
      from True have u: "[i..days c - 1] = i # [i + 1..days c - 1]"
        by (simp add: upto_rec1)
      from "1.IH"[OF True b refl refl l] d u show ?thesis by simp
    qed
  next
    case False
    with 1(2) show ?thesis by (simp add: loop_done)
  qed
qed

lemma gen_dates:
  assumes "generateTradingSeries rs now n = Some pts"
  shows "map date pts = map (\<lambda>k. toISODate (point_day now n k)) [0..n - 1]"
proof -
  from gen_SomeD[OF assms] obtain s' pos'
    where l: "loop (fst (init rs now n)) rs 0 (fst (snd (init rs now n))) 6 [] = Some (s', pts, pos')"
    by blast
  from loop_dates[OF l] show ?thesis
    by (simp add: init_eq point_day_def)
qed


lemma gen_terminates:
  assumes "nonzero_recurs rs"
  shows "\<exists>pts. generateTradingSeries rs now n = Some pts"
proof -
  from loop_terminates[OF assms, of "fst (init rs now n)" 0 "fst (snd (init rs now n))" 6 "[]"]
  obtain r where "loop (fst (init rs now n)) rs 0 (fst (snd (init rs now n))) 6 [] = Some r"
    by blast
  then show ?thesis
    by (cases r) (simp add: generateTradingSeries_def init_eq)
qed

text \<open>The assumption on the source is needed in this model only for a source that
  returns \<open>0\<close> on every call from some call on: there the redraw loop of \<^verbatim>\<open>gaussian\<close>
  does not exit.\<close>

lemma gen_zeros: "0 < n \<Longrightarrow> generateTradingSeries zeros now n = None"
proof -
  assume n: "0 < n"
  have "loop_body c zeros i s pos = None" for c i s pos
    by (simp add: loop_body_def gaussian_zeros Let_def split: prod.splits)
  with n show ?thesis
    by (simp add: generateTradingSeries_def init_eq loop_stuck)
qed

lemma nonzero_recurs_quarters: "nonzero_recurs quarters"
  by (auto simp: nonzero_recurs_def quarters_def)




subsection \<open>The dates of the series across a change of the zone's offset\<close>

lemma nuuk_dates_7:
  "map (\<lambda>k. toISODate (point_day nuuk_april_1 7 k)) [0, 1, 2, 3, 4, 5, 6] =
     [''2026-03-26'', ''2026-03-27'', ''2026-03-29'', ''2026-03-29'', ''2026-03-30'',
      ''2026-03-31'', ''2026-04-01'']"
  by code_simp

lemma nuuk_dates_3:
  "map (\<lambda>k. toISODate (point_day nuuk_march_30 3 k)) [0, 1, 2] =
     [''2026-03-29'', ''2026-03-30'', ''2026-03-31'']"
  by code_simp

lemma nuuk_today:
  "toISODate nuuk_april_1 = ''2026-04-01''" "toISODate nuuk_march_30 = ''2026-03-30''"
  by code_simp+

text \<open>
  C4 does not hold of the code. \<^verbatim>\<open>shiftDays\<close> moves the day of the month and keeps the
  local time of day; where the zone's clock skips that time of day, \<^verbatim>\<open>setDate\<close> lands on
  the next day. In Nuuk, where 23:00 to 24:00 of 28 March 2026 is skipped, the call with
  \<open>days = 7\<close> at 23:30 on 1 April 2026 returns dates that leave out 28 March and hold
  29 March twice: they are neither contiguous nor unique nor strictly increasing. The call
  with \<open>days = 3\<close> at 23:30 on 30 March 2026 returns dates that end on 31 March, the day
  after the day of the call.
\<close>

theorem dates_repeat_where_zone_skips_hour:
  "generateTradingSeries quarters nuuk_april_1 7 \<noteq> None \<and>
   map date (the (generateTradingSeries quarters nuuk_april_1 7)) =
     [''2026-03-26'', ''2026-03-27'', ''2026-03-29'', ''2026-03-29'', ''2026-03-30'',
      ''2026-03-31'', ''2026-04-01''] \<and>
   toISODate nuuk_april_1 = ''2026-04-01'' \<and>
   generateTradingSeries quarters nuuk_march_30 3 \<noteq> None \<and>
   map date (the (generateTradingSeries quarters nuuk_march_30 3)) =
     [''2026-03-29'', ''2026-03-30'', ''2026-03-31''] \<and>
   toISODate nuuk_march_30 = ''2026-03-30''"
proof -
  from gen_terminates[OF nonzero_recurs_quarters, of nuuk_april_1 7]
  obtain p7 where g7: "generateTradingSeries quarters nuuk_april_1 7 = Some p7" by blast
  from gen_terminates[OF nonzero_recurs_quarters, of nuuk_march_30 3]
  obtain p3 where g3: "generateTradingSeries quarters nuuk_march_30 3 = Some p3" by blast
  have u7: "[0..(7::int) - 1] = [0, 1, 2, 3, 4, 5, 6]" by (simp add: upto_rec1)
  have u3: "[0..(3::int) - 1] = [0, 1, 2]" by (simp add: upto_rec1)
  have d7: "map date p7 =
      [''2026-03-26'', ''2026-03-27'', ''2026-03-29'', ''2026-03-29'', ''2026-03-30'',
       ''2026-03-31'', ''2026-04-01'']"
    by (simp only: gen_dates[OF g7] u7 nuuk_dates_7)
  have d3: "map date p3 = [''2026-03-29'', ''2026-03-30'', ''2026-03-31'']"
    by (simp only: gen_dates[OF g3] u3 nuuk_dates_3)
  from g7 g3 d7 d3 nuuk_today show ?thesis by simp
qed

end
